theory Spec2Isabelle
  imports Complex_Main "HOL-Library.Word" "HOL-Library.Sublist"
begin

section \<open>JavaScript numbers\<close>

text \<open>
  The audio worklet (\<^verbatim>\<open>frontend/public/audio-processor.js\<close>) works on the elements of a
  \<^verbatim>\<open>Float32Array\<close>. Every finite binary float is a rational number, so a number is modelled
  as a rational or one of the three special values. The only arithmetic the worklet does on
  a sample is \<^verbatim>\<open>Math.min\<close>, \<^verbatim>\<open>Math.max\<close>, a comparison with 0 and one product with
  \<^verbatim>\<open>0x8000\<close> or \<^verbatim>\<open>0x7fff\<close>. A 32-bit float has a 24-bit significand and both constants
  have at most 15 bits, so the product has at most 39 significant bits and the 64-bit
  product of the source is exact: on the values a \<^verbatim>\<open>Float32Array\<close> can hold, the rational
  product below is the product the source computes. The sign of zero is not modelled; both
  zeros are stored as the integer 0.
\<close>

datatype number = NaN | NegInfinity | Finite rat | PosInfinity

text \<open>The relational operator \<^verbatim>\<open><\<close>: false whenever an operand is NaN.\<close>

fun js_less :: "number \<Rightarrow> number \<Rightarrow> bool" where
  "js_less NaN _ = False"
| "js_less _ NaN = False"
| "js_less _ NegInfinity = False"
| "js_less NegInfinity _ = True"
| "js_less PosInfinity _ = False"
| "js_less _ PosInfinity = True"
| "js_less (Finite a) (Finite b) = (a < b)"

definition Math_min :: "number \<Rightarrow> number \<Rightarrow> number" where
  "Math_min a b = (if a = NaN \<or> b = NaN then NaN else if js_less b a then b else a)"

definition Math_max :: "number \<Rightarrow> number \<Rightarrow> number" where
  "Math_max a b = (if a = NaN \<or> b = NaN then NaN else if js_less a b then b else a)"

fun js_sign :: "number \<Rightarrow> int" where
  "js_sign NaN = 0"
| "js_sign NegInfinity = - 1"
| "js_sign PosInfinity = 1"
| "js_sign (Finite a) = (if a < 0 then - 1 else if a = 0 then 0 else 1)"

text \<open>The operator \<^verbatim>\<open>*\<close>; an infinity times zero is NaN.\<close>

fun js_times :: "number \<Rightarrow> number \<Rightarrow> number" where
  "js_times (Finite a) (Finite b) = Finite (a * b)"
| "js_times a b =
     (if a = NaN \<or> b = NaN \<or> js_sign a * js_sign b = 0 then NaN
      else if 0 < js_sign a * js_sign b then PosInfinity else NegInfinity)"

text \<open>Rounding towards zero, the first step of every integer conversion of ECMAScript.\<close>

definition js_trunc :: "rat \<Rightarrow> int" where
  "js_trunc r = (if r < 0 then - \<lfloor>- r\<rfloor> else \<lfloor>r\<rfloor>)"

text \<open>
  A store into an \<^verbatim>\<open>Int16Array\<close> converts with \<^verbatim>\<open>ToInt16\<close>: NaN and the infinities become 0,
  any other number is rounded towards zero and reduced modulo \<open>2 ^ 16\<close> into the signed
  16-bit range. The 16-bit word holds the stored bit pattern; \<^term>\<open>sint\<close> reads it.
\<close>

fun ToInt16 :: "number \<Rightarrow> 16 word" where
  "ToInt16 (Finite r) = word_of_int (js_trunc r)"
| "ToInt16 _ = 0"

section \<open>The audio capture processor\<close>

text \<open>
  The body of the loop of \<^verbatim>\<open>floatTo16BitPCM\<close>:
  \<^verbatim>\<open>const s = Math.max(-1, Math.min(1, float32Array[i]));\<close>
  \<^verbatim>\<open>int16Array[i] = s < 0 ? s * 0x8000 : s * 0x7fff;\<close>
\<close>

definition pcm_sample :: "number \<Rightarrow> 16 word" where
  "pcm_sample x =
     (let s = Math_max (Finite (- 1)) (Math_min (Finite 1) x)
      in ToInt16 (if js_less s (Finite 0) then js_times s (Finite 32768)
                  else js_times s (Finite 32767)))"

text \<open>
  The loop itself, over the index \<open>i\<close>, writing into the zero-filled \<^verbatim>\<open>Int16Array\<close> of the
  same length. A write beyond the end of a typed array is ignored, as is
  \<^term>\<open>list_update\<close> beyond the end of a list.
\<close>

function pcm_loop :: "number list \<Rightarrow> nat \<Rightarrow> 16 word list \<Rightarrow> 16 word list" where
  "pcm_loop float32Array i int16Array =
     (if i < length float32Array
      then pcm_loop float32Array (Suc i) (int16Array[i := pcm_sample (float32Array ! i)])
      else int16Array)"
  by pat_completeness auto
termination
  by (relation "measure (\<lambda>(float32Array, i, int16Array). length float32Array - i)") auto

definition floatTo16BitPCM :: "number list \<Rightarrow> 16 word list" where
  "floatTo16BitPCM float32Array =
     pcm_loop float32Array 0 (replicate (length float32Array) 0)"

text \<open>
  The processor object: the fields set by the constructor, and the messages posted on
  \<^verbatim>\<open>this.port\<close> so far, oldest first (each message carries one \<^verbatim>\<open>Int16Array\<close>).
\<close>

record AudioCaptureProcessor =
  bufferSize :: nat
  buffer :: "number list"
  bufferIndex :: nat
  port :: "16 word list list"

definition constructor :: AudioCaptureProcessor where
  "constructor =
     \<lparr>bufferSize = 4096, buffer = replicate 4096 (Finite 0), bufferIndex = 0, port = []\<rparr>"

text \<open>
  One turn of the loop of \<^verbatim>\<open>process\<close>: store the sample at \<^verbatim>\<open>bufferIndex++\<close>; when the
  index has reached \<^verbatim>\<open>bufferSize\<close>, post the converted buffer, allocate a fresh zero-filled
  buffer and reset the index.
\<close>

definition push :: "AudioCaptureProcessor \<Rightarrow> number \<Rightarrow> AudioCaptureProcessor" where
  "push this x =
     (let this1 = this\<lparr>buffer := (buffer this)[bufferIndex this := x],
                       bufferIndex := bufferIndex this + 1\<rparr>
      in if bufferSize this1 \<le> bufferIndex this1
         then this1\<lparr>port := port this1 @ [floatTo16BitPCM (buffer this1)],
                     buffer := replicate (bufferSize this1) (Finite 0),
                     bufferIndex := 0\<rparr>
         else this1)"

datatype error = TypeError

text \<open>
  \<^verbatim>\<open>process(inputs, outputs, parameters)\<close>. \<open>inputs\<close> is the list of the node's inputs, each
  a list of channels, each a list of samples. \<^verbatim>\<open>inputs[0]\<close> of an empty list is
  \<^verbatim>\<open>undefined\<close>, and reading its length raises a TypeError. An input without channels is
  skipped. The method always returns \<^verbatim>\<open>true\<close>, which is not modelled.
\<close>

definition process :: "number list list list \<Rightarrow> AudioCaptureProcessor \<Rightarrow> error + AudioCaptureProcessor" where
  "process inputs this =
     (case inputs of
        [] \<Rightarrow> Inl TypeError
      | input # _ \<Rightarrow>
          (case input of
             [] \<Rightarrow> Inr this
           | inputChannel # _ \<Rightarrow> Inr (foldl push this inputChannel)))"

text \<open>The audio engine calls \<^verbatim>\<open>process\<close> once per rendering quantum, in order.\<close>

fun run :: "AudioCaptureProcessor \<Rightarrow> number list list list list \<Rightarrow> error + AudioCaptureProcessor" where
  "run this [] = Inr this"
| "run this (inputs # rest) =
     (case process inputs this of Inl e \<Rightarrow> Inl e | Inr this' \<Rightarrow> run this' rest)"

text \<open>
  The node is created by \<^verbatim>\<open>new AudioWorkletNode(audioContext, 'audio-capture-processor')\<close>
  with the default of one input, so every call receives a one-element \<open>inputs\<close>. The
  samples the processor is given by a sequence of such calls are those of the first
  channel of each input that has a channel.
\<close>

definition first_channel :: "number list list \<Rightarrow> number list" where
  "first_channel input = (case input of [] \<Rightarrow> [] | inputChannel # _ \<Rightarrow> inputChannel)"

definition delivered :: "number list list list \<Rightarrow> number list" where
  "delivered blocks = concat (map first_channel blocks)"

text \<open>
  The relation between a processor of frame length \<open>N\<close> and the samples \<open>xs\<close> it has been
  given since its construction: the posted frames are the encoded full blocks of \<open>N\<close>
  samples of \<open>xs\<close>, in order, and the samples after the last full block sit at the start of
  the buffer.
\<close>

definition consumed :: "nat \<Rightarrow> AudioCaptureProcessor \<Rightarrow> number list \<Rightarrow> bool" where
  "consumed N this xs \<longleftrightarrow>
     0 < N \<and> bufferSize this = N \<and> length (buffer this) = N \<and> bufferIndex this < N \<and>
     length xs = N * length (port this) + bufferIndex this \<and>
     take (bufferIndex this) (buffer this) = drop (N * length (port this)) xs \<and>
     concat (port this) = map pcm_sample (take (N * length (port this)) xs) \<and>
     (\<forall>frame \<in> set (port this). length frame = N)"

text \<open>
  The encoding of a finite sample in the words of the specification: clamp to \<open>[-1, 1]\<close>,
  scale a negative value by 32768 and a non-negative one by 32767, and store the integer
  part.
\<close>

definition spec_encode :: "rat \<Rightarrow> int" where
  "spec_encode x =
     (let s = max (- 1) (min 1 x)
      in js_trunc (if s < 0 then s * 32768 else s * 32767))"

section \<open>The transcription page\<close>

text \<open>
  The data of \<^verbatim>\<open>frontend/app/page.tsx\<close>. Several interfaces of the source share field
  names; the fields of \<^verbatim>\<open>TranscriptSegment\<close>, of \<^verbatim>\<open>SessionData\<close> and of the inbound message
  \<^verbatim>\<open>data\<close> carry a prefix here. Times are the milliseconds of \<^verbatim>\<open>Date.now()\<close>. The numbers of a metrics sample are
  finite 64-bit floats, held as the rationals they denote; the page only copies them.
\<close>

datatype segment_type = Partial | Final

record TranscriptSegment =
  seg_text :: string
  seg_type :: segment_type
  seg_timestamp :: int

record Metrics =
  cpu_percent :: rat
  memory_mb :: rat
  avg_chunk_time_ms :: rat
  rtf :: rat
  processing_time_ms :: "rat option"

record SessionData =
  session_model :: "string option"
  session_timestamp :: int
  session_duration :: int
  session_metrics :: "Metrics list"
  session_transcript :: string

text \<open>
  The object \<^verbatim>\<open>data\<close> that \<^verbatim>\<open>JSON.parse\<close> yields for an inbound message. A property that
  is absent reads as \<^verbatim>\<open>undefined\<close>, here \<^term>\<open>None\<close>. Following the wire contract, \<^verbatim>\<open>type\<close>,
  \<^verbatim>\<open>text\<close>, \<^verbatim>\<open>model\<close> and \<^verbatim>\<open>message\<close> are strings and \<^verbatim>\<open>metrics\<close> is an object when present.
\<close>

record Data =
  data_type :: "string option"
  data_text :: "string option"
  data_metrics :: "Metrics option"
  data_model :: "string option"
  data_message :: "string option"

text \<open>
  The calls \<^verbatim>\<open>stopRecording\<close> makes into the browser: reading the stored sessions, parsing
  them, writing them back, and the four teardown calls (one \<^verbatim>\<open>stop\<close> per track).
\<close>

datatype call =
  GetItem | JSON_parse | SetItem | WsClose | WorkletDisconnect | AudioContextClose | TrackStop nat

text \<open>
  The state of the component \<^verbatim>\<open>Home\<close>: its \<^verbatim>\<open>useState\<close> values and its refs. A ref to a
  browser object is modelled by whether it is non-null; \<^verbatim>\<open>streamRef\<close> holds the number of
  tracks of the stream. Two more fields stand for the browser: the list stored under the
  key \<^verbatim>\<open>transcription_sessions\<close> of \<^verbatim>\<open>localStorage\<close> (\<^term>\<open>None\<close> when the key is absent),
  and the trace of the browser calls made so far.
\<close>

record Home =
  isRecording :: bool
  transcript :: "TranscriptSegment list"
  currentModel :: "string option"
  metrics :: "Metrics option"
  status :: string
  wsRef :: bool
  audioContextRef :: bool
  workletNodeRef :: bool
  streamRef :: "nat option"
  sessionStartRef :: int
  metricsHistoryRef :: "Metrics list"
  localStorage :: "SessionData list option"
  calls :: "call list"

definition initial_home :: Home where
  "initial_home =
     \<lparr>isRecording = False, transcript = [], currentModel = Some ''vosk'', metrics = None,
      status = ''Disconnected'', wsRef = False, audioContextRef = False,
      workletNodeRef = False, streamRef = None, sessionStartRef = 0,
      metricsHistoryRef = [], localStorage = None, calls = []\<rparr>"

text \<open>A value inside a template literal; \<^verbatim>\<open>undefined\<close> prints as its name.\<close>

definition template :: "string option \<Rightarrow> string" where
  "template v = (case v of None \<Rightarrow> ''undefined'' | Some s \<Rightarrow> s)"

text \<open>Truthiness of a string property: present and not empty.\<close>

definition truthy :: "string option \<Rightarrow> bool" where
  "truthy v = (case v of None \<Rightarrow> False | Some s \<Rightarrow> s \<noteq> [])"

definition is_final :: "TranscriptSegment \<Rightarrow> bool" where
  "is_final s = (seg_type s = Final)"

definition is_partial :: "TranscriptSegment \<Rightarrow> bool" where
  "is_partial s = (seg_type s = Partial)"

text \<open>
  The updater passed to \<^verbatim>\<open>setTranscript\<close> in \<^verbatim>\<open>ws.onmessage\<close>, for a message whose type is
  \<^verbatim>\<open>partial\<close> or \<^verbatim>\<open>final\<close> and whose text is truthy. Both branches of the source keep the
  Final segments of \<open>prev\<close> and append the new segment.
\<close>

definition merge_segment :: "int \<Rightarrow> Data \<Rightarrow> TranscriptSegment list \<Rightarrow> TranscriptSegment list" where
  "merge_segment now data prev =
     (let newSegment =
            \<lparr>seg_text = the (data_text data),
             seg_type = (if data_type data = Some ''partial'' then Partial else Final),
             seg_timestamp = now\<rparr>
      in if data_type data = Some ''partial''
         then (let filtered = filter is_final prev in filtered @ [newSegment])
         else filter is_final prev @ [newSegment])"

text \<open>\<^verbatim>\<open>ws.onmessage\<close>, applied to the parsed message; \<open>now\<close> is the value of \<^verbatim>\<open>Date.now()\<close>.\<close>

definition onmessage :: "int \<Rightarrow> Data \<Rightarrow> Home \<Rightarrow> Home" where
  "onmessage now data h =
     (if data_type data = Some ''connected'' then h\<lparr>currentModel := data_model data\<rparr>
      else if data_type data = Some ''partial'' \<or> data_type data = Some ''final'' then
        (let h1 = (if truthy (data_text data)
                   then h\<lparr>transcript := merge_segment now data (transcript h)\<rparr>
                   else h)
         in case data_metrics data of
              None \<Rightarrow> h1
            | Some m \<Rightarrow> h1\<lparr>metrics := Some m, metricsHistoryRef := metricsHistoryRef h1 @ [m]\<rparr>)
      else if data_type data = Some ''model_switched'' then
        h\<lparr>currentModel := data_model data,
          status := ''Switched to '' @ template (data_model data)\<rparr>
      else if data_type data = Some ''error'' then
        h\<lparr>status := ''Error: '' @ template (data_message data)\<rparr>
      else h)"

text \<open>
  \<^verbatim>\<open>startRecording\<close> after \<^verbatim>\<open>initializeAudio\<close> has succeeded with a stream of \<open>tracks\<close>
  tracks: the refs are set, and the session clock, the metrics history and the transcript
  are reset. (When \<^verbatim>\<open>initializeAudio\<close> fails, \<^verbatim>\<open>startRecording\<close> returns before any of this.)
\<close>

definition startRecording :: "int \<Rightarrow> nat \<Rightarrow> Home \<Rightarrow> Home" where
  "startRecording now tracks h =
     h\<lparr>streamRef := Some tracks, audioContextRef := True, workletNodeRef := True,
       wsRef := True, isRecording := True, sessionStartRef := now,
       metricsHistoryRef := [], transcript := []\<rparr>"

text \<open>\<^verbatim>\<open>resetTranscript\<close>; the control message it sends does not touch the local state.\<close>

definition resetTranscript :: "Home \<Rightarrow> Home" where
  "resetTranscript h = h\<lparr>transcript := []\<rparr>"

text \<open>What can happen between the start and the stop of a recording.\<close>

datatype event = Message int Data | ResetTranscript | WsOpen | WsError | WsClosed

fun handle :: "Home \<Rightarrow> event \<Rightarrow> Home" where
  "handle h (Message now data) = onmessage now data h"
| "handle h ResetTranscript = resetTranscript h"
| "handle h WsOpen = h\<lparr>status := ''Connected''\<rparr>"
| "handle h WsError = h\<lparr>status := ''Connection error''\<rparr>"
| "handle h WsClosed = h\<lparr>status := ''Disconnected''\<rparr>"

definition recording :: "int \<Rightarrow> nat \<Rightarrow> event list \<Rightarrow> Home \<Rightarrow> Home" where
  "recording now tracks events h = foldl handle (startRecording now tracks h) events"

text \<open>\<^verbatim>\<open>Array.prototype.join\<close> on an array of strings.\<close>

fun join :: "string \<Rightarrow> string list \<Rightarrow> string" where
  "join sep [] = []"
| "join sep [x] = x"
| "join sep (x # y # ys) = x @ sep @ join sep (y # ys)"

text \<open>The object \<^verbatim>\<open>sessionData\<close> that \<^verbatim>\<open>stopRecording\<close> builds first.\<close>

definition sessionData :: "int \<Rightarrow> Home \<Rightarrow> SessionData" where
  "sessionData now h =
     \<lparr>session_model = currentModel h,
      session_timestamp = sessionStartRef h,
      session_duration = now - sessionStartRef h,
      session_metrics = metricsHistoryRef h,
      session_transcript = join '' '' (map seg_text (transcript h))\<rparr>"

text \<open>A message that carries a type and a text and nothing else.\<close>

definition text_event :: "string \<Rightarrow> string \<Rightarrow> Data" where
  "text_event ty txt =
     \<lparr>data_type = Some ty, data_text = Some txt, data_metrics = None, data_model = None,
      data_message = None\<rparr>"

text \<open>A final message without text that carries a metrics sample.\<close>

definition silence_with_metrics :: Data where
  "silence_with_metrics =
     \<lparr>data_type = Some ''final'', data_text = Some [],
      data_metrics = Some \<lparr>cpu_percent = 12, memory_mb = 300, avg_chunk_time_ms = 40,
                            rtf = 2 / 5, processing_time_ms = None\<rparr>,
      data_model = None, data_message = None\<rparr>"

text \<open>
  \<^verbatim>\<open>stopRecording\<close> has no exception handler, so an exception raised by a browser call ends
  it at that call. A step yields the state it leaves and, if it raised, the call that did.
  Which calls raise is a parameter.
\<close>

type_synonym outcome = "Home \<times> call option"

definition invoke :: "(call \<Rightarrow> bool) \<Rightarrow> call \<Rightarrow> Home \<Rightarrow> outcome" where
  "invoke throws c h = (h\<lparr>calls := calls h @ [c]\<rparr>, if throws c then Some c else None)"

definition and_then :: "outcome \<Rightarrow> (Home \<Rightarrow> outcome) \<Rightarrow> outcome" where
  "and_then r f = (case snd r of None \<Rightarrow> f (fst r) | Some c \<Rightarrow> r)"

text \<open>
  \<^verbatim>\<open>const sessions = JSON.parse(localStorage.getItem('transcription_sessions') || '[]');\<close>
  \<^verbatim>\<open>sessions.push(sessionData);\<close>
  \<^verbatim>\<open>localStorage.setItem('transcription_sessions', JSON.stringify(sessions));\<close>
\<close>

definition save_session :: "(call \<Rightarrow> bool) \<Rightarrow> int \<Rightarrow> Home \<Rightarrow> outcome" where
  "save_session throws now h =
     and_then (invoke throws GetItem h) (\<lambda>h1.
     and_then (invoke throws JSON_parse h1) (\<lambda>h2.
     (let sessions = (case localStorage h2 of None \<Rightarrow> [] | Some stored \<Rightarrow> stored)
                       @ [sessionData now h]
      in and_then (invoke throws SetItem h2) (\<lambda>h3.
         (h3\<lparr>localStorage := Some sessions\<rparr>, None)))))"

definition close_ws :: "(call \<Rightarrow> bool) \<Rightarrow> Home \<Rightarrow> outcome" where
  "close_ws throws h =
     (if wsRef h
      then and_then (invoke throws WsClose h) (\<lambda>h1. (h1\<lparr>wsRef := False\<rparr>, None))
      else (h, None))"

definition disconnect_worklet :: "(call \<Rightarrow> bool) \<Rightarrow> Home \<Rightarrow> outcome" where
  "disconnect_worklet throws h =
     (if workletNodeRef h
      then and_then (invoke throws WorkletDisconnect h)
             (\<lambda>h1. (h1\<lparr>workletNodeRef := False\<rparr>, None))
      else (h, None))"

definition close_context :: "(call \<Rightarrow> bool) \<Rightarrow> Home \<Rightarrow> outcome" where
  "close_context throws h =
     (if audioContextRef h
      then and_then (invoke throws AudioContextClose h)
             (\<lambda>h1. (h1\<lparr>audioContextRef := False\<rparr>, None))
      else (h, None))"

text \<open>\<^verbatim>\<open>getTracks().forEach(track => track.stop())\<close>, over the tracks in order.\<close>

fun stop_each :: "(call \<Rightarrow> bool) \<Rightarrow> nat list \<Rightarrow> Home \<Rightarrow> outcome" where
  "stop_each throws [] h = (h, None)"
| "stop_each throws (track # rest) h =
     and_then (invoke throws (TrackStop track) h) (stop_each throws rest)"

definition stop_tracks :: "(call \<Rightarrow> bool) \<Rightarrow> Home \<Rightarrow> outcome" where
  "stop_tracks throws h =
     (case streamRef h of
        None \<Rightarrow> (h, None)
      | Some n \<Rightarrow> and_then (stop_each throws [0..<n] h) (\<lambda>h1. (h1\<lparr>streamRef := None\<rparr>, None)))"

definition stopRecording :: "(call \<Rightarrow> bool) \<Rightarrow> int \<Rightarrow> Home \<Rightarrow> outcome" where
  "stopRecording throws now h =
     and_then (save_session throws now h) (\<lambda>h1.
     and_then (close_ws throws h1) (\<lambda>h2.
     and_then (disconnect_worklet throws h2) (\<lambda>h3.
     and_then (close_context throws h3) (\<lambda>h4.
     and_then (stop_tracks throws h4) (\<lambda>h5.
     (h5\<lparr>isRecording := False, status := ''Stopped''\<rparr>, None))))))"

text \<open>
  The browser calls of a stop in which nothing raises, in order: the three calls of the
  save, then one teardown call for each ref that is set.
\<close>

definition plan :: "Home \<Rightarrow> call list" where
  "plan h =
     [GetItem, JSON_parse, SetItem]
     @ (if wsRef h then [WsClose] else [])
     @ (if workletNodeRef h then [WorkletDisconnect] else [])
     @ (if audioContextRef h then [AudioContextClose] else [])
     @ (case streamRef h of None \<Rightarrow> [] | Some n \<Rightarrow> map TrackStop [0..<n])"

text \<open>The calls of a list that are made when the first one that raises ends the run.\<close>

fun attempted :: "(call \<Rightarrow> bool) \<Rightarrow> call list \<Rightarrow> call list" where
  "attempted throws [] = []"
| "attempted throws (c # cs) = (if throws c then [c] else c # attempted throws cs)"

fun first_throw :: "(call \<Rightarrow> bool) \<Rightarrow> call list \<Rightarrow> call option" where
  "first_throw throws [] = None"
| "first_throw throws (c # cs) = (if throws c then Some c else first_throw throws cs)"

text \<open>
  What a step that starts in \<open>h\<close> does, when \<open>cs\<close> are the calls it makes if none raises
  and \<open>h'\<close> is the state it leaves then: the calls up to the first that raises are made,
  and a raise leaves the recording flag and the status as they were.
\<close>

definition follows :: "(call \<Rightarrow> bool) \<Rightarrow> call list \<Rightarrow> Home \<Rightarrow> Home \<Rightarrow> outcome \<Rightarrow> bool" where
  "follows throws cs h h' r \<longleftrightarrow>
     (if first_throw throws cs = None then r = (h', None)
      else snd r = first_throw throws cs \<and>
           calls (fst r) = calls h @ attempted throws cs \<and>
           isRecording (fst r) = isRecording h \<and> status (fst r) = status h)"

text \<open>Two environments: one where no call raises, one where the store is over quota.\<close>

definition no_throw :: "call \<Rightarrow> bool" where
  "no_throw c = False"

definition quota_exceeded :: "call \<Rightarrow> bool" where
  "quota_exceeded c = (c = SetItem)"

section \<open>The comparison view\<close>

text \<open>The state of the component in \<^verbatim>\<open>frontend/components/ComparisonView.tsx\<close>.\<close>

record ComparisonView =
  sessions :: "SessionData list"
  selectedSessions :: "nat list"

definition initial_view :: ComparisonView where
  "initial_view = \<lparr>sessions = [], selectedSessions = []\<rparr>"

text \<open>\<^verbatim>\<open>xs.slice(-n)\<close>: the last \<open>n\<close> elements, all of them when there are fewer.\<close>

definition slice_last :: "nat \<Rightarrow> 'a list \<Rightarrow> 'a list" where
  "slice_last n xs = drop (length xs - n) xs"

text \<open>The updater passed to \<^verbatim>\<open>setSelectedSessions\<close> in \<^verbatim>\<open>toggleSession\<close>.\<close>

definition toggleSession :: "nat \<Rightarrow> nat list \<Rightarrow> nat list" where
  "toggleSession index prev =
     (if index \<in> set prev then filter (\<lambda>i. i \<noteq> index) prev
      else slice_last 2 (prev @ [index]))"

text \<open>\<^verbatim>\<open>loadSessions\<close>; the argument is the parsed stored item, \<^term>\<open>None\<close> when absent.\<close>

definition loadSessions :: "SessionData list option \<Rightarrow> ComparisonView \<Rightarrow> ComparisonView" where
  "loadSessions stored v =
     (case stored of
        None \<Rightarrow> v
      | Some parsed \<Rightarrow>
          (let v1 = v\<lparr>sessions := parsed\<rparr>
           in if 2 \<le> length parsed
              then v1\<lparr>selectedSessions := [length parsed - 2, length parsed - 1]\<rparr>
              else if length parsed = 1 then v1\<lparr>selectedSessions := [0]\<rparr>
              else v1))"

text \<open>\<^verbatim>\<open>clearSessions\<close>; the argument is the answer to the confirmation dialog.\<close>

definition clearSessions :: "bool \<Rightarrow> ComparisonView \<Rightarrow> ComparisonView" where
  "clearSessions confirmed v =
     (if confirmed then v\<lparr>sessions := [], selectedSessions := []\<rparr> else v)"

datatype view_action = LoadSessions "SessionData list option" | ClearSessions bool | ToggleSession nat

fun act :: "ComparisonView \<Rightarrow> view_action \<Rightarrow> ComparisonView" where
  "act v (LoadSessions stored) = loadSessions stored v"
| "act v (ClearSessions confirmed) = clearSessions confirmed v"
| "act v (ToggleSession index) = v\<lparr>selectedSessions := toggleSession index (selectedSessions v)\<rparr>"

subsection \<open>Arithmetic on 64-bit floats\<close>

text \<open>
  \<^verbatim>\<open>getAverageMetrics\<close> adds and divides JavaScript numbers, which are IEEE 754 binary64
  values: a 53-bit significand, exponents from -1022 to 1023, gradual underflow, overflow to
  an infinity, and every result rounded to the nearest value, a tie going to the even
  significand. An operation on finite operands is the exact rational operation followed
  by this rounding. As before, the sign of zero is not modelled.
\<close>

text \<open>The number of binary digits of a positive integer.\<close>

function bit_length :: "int \<Rightarrow> nat" where
  "bit_length n = (if n \<le> 0 then 0 else Suc (bit_length (n div 2)))"
  by pat_completeness auto
termination
  by (relation "measure nat") auto

declare bit_length.simps [simp del]

text \<open>Two to a non-negative integer power, by repeated squaring.\<close>

function two_to :: "int \<Rightarrow> rat" where
  "two_to k =
     (if k \<le> 0 then 1
      else (let h = two_to (k div 2) in if even k then h * h else 2 * h * h))"
  by pat_completeness auto
termination
  by (relation "measure nat") auto

declare two_to.simps [simp del]

definition pow2 :: "int \<Rightarrow> rat" where
  "pow2 e = (if 0 \<le> e then two_to e else 1 / two_to (- e))"

text \<open>
  The binary exponent of a positive rational \<open>x\<close>, the \<open>e\<close> with \<open>2 ^ e \<le> x < 2 ^ (e + 1)\<close>:
  the difference of the bit lengths of numerator and denominator, or one less.
\<close>

definition binade :: "rat \<Rightarrow> int" where
  "binade x =
     (let e0 = int (bit_length (fst (quotient_of x))) - int (bit_length (snd (quotient_of x)))
      in if pow2 e0 \<le> x then e0 else e0 - 1)"

text \<open>The nearest integer to a non-negative rational, a tie going to the even one.\<close>

definition round_half_even :: "rat \<Rightarrow> int" where
  "round_half_even y =
     (let n = \<lfloor>y\<rfloor>; r = y - of_int n
      in if r < 1 / 2 then n else if 1 / 2 < r then n + 1 else if even n then n else n + 1)"

text \<open>
  Rounding to binary64. The spacing of the values around \<open>x\<close> is \<open>2 ^ (e - 52)\<close>, where \<open>e\<close> is
  the exponent of \<open>x\<close> and at least -1022; \<open>x\<close> is rounded to a multiple \<open>n\<close> of the spacing,
  and the result exceeds the largest finite value exactly when \<open>e\<close> exceeds 1023, or is 1023
  and \<open>n\<close> has reached \<open>2 ^ 53\<close>.
\<close>

definition round_double :: "rat \<Rightarrow> number" where
  "round_double x =
     (if x = 0 then Finite 0
      else
        (let e = max (binade \<bar>x\<bar>) (- 1022);
             q = pow2 (e - 52);
             n = round_half_even (\<bar>x\<bar> / q)
         in if 1023 < e \<or> (e = 1023 \<and> n = 9007199254740992)
            then (if 0 < x then PosInfinity else NegInfinity)
            else Finite (if 0 < x then of_int n * q else - (of_int n * q))))"

text \<open>The operator \<^verbatim>\<open>+\<close> on numbers; opposite infinities add to NaN.\<close>

fun js_plus :: "number \<Rightarrow> number \<Rightarrow> number" where
  "js_plus (Finite a) (Finite b) = round_double (a + b)"
| "js_plus NaN _ = NaN"
| "js_plus _ NaN = NaN"
| "js_plus PosInfinity NegInfinity = NaN"
| "js_plus NegInfinity PosInfinity = NaN"
| "js_plus PosInfinity _ = PosInfinity"
| "js_plus _ PosInfinity = PosInfinity"
| "js_plus NegInfinity _ = NegInfinity"
| "js_plus _ NegInfinity = NegInfinity"


subsection \<open>Averaging\<close>






text \<open>
  The mean as binary64 arithmetic computes it: the values are added from the left,
  starting from 0, and the sum is divided by their number, with a rounding after every
  addition and after the division.
\<close>

definition double_sum :: "number \<Rightarrow> rat list \<Rightarrow> number" where
  "double_sum start xs = foldl js_plus start (map Finite xs)"







text \<open>The binary64 values nearest to 0.1, to 0.2 and to \<open>10 ^ 308\<close>.\<close>

definition double_0_1 :: rat where
  "double_0_1 = 3602879701896397 / 36028797018963968"

definition double_0_2 :: rat where
  "double_0_2 = 3602879701896397 / 18014398509481984"

definition double_1e308 :: rat where
  "double_1e308 =
     100000000000000001097906362944045541740492309677311846336810682903157585404911491537163328978494688899061249669721172515611590283743140088328307009198146046031271664502933027185697489699588559043338384466165001178426897626212945177628091195786707458122783970171784415105291802893207873272974885715430223118336"

section \<open>Properties of the audio capture processor\<close>

subsection \<open>Conversion to 16-bit PCM\<close>

lemma pcm_loop_eq:
  "length acc = length xs \<Longrightarrow> i \<le> length xs \<Longrightarrow>
   pcm_loop xs i acc = take i acc @ map pcm_sample (drop i xs)"
proof (induction xs i acc rule: pcm_loop.induct)
  case (1 xs i acc)
  show ?case
  proof (cases "i < length xs")
    case True
    let ?acc = "acc[i := pcm_sample (xs ! i)]"
    have "pcm_loop xs i acc = pcm_loop xs (Suc i) ?acc"
      using True by (subst pcm_loop.simps) simp
    also have "\<dots> = take (Suc i) ?acc @ map pcm_sample (drop (Suc i) xs)"
      using "1.IH" [OF True] "1.prems" True by (simp del: pcm_loop.simps)
    also have "take (Suc i) ?acc = take i acc @ [pcm_sample (xs ! i)]"
      using True "1.prems" by (simp add: take_Suc_conv_app_nth del: pcm_loop.simps)
    also have "(take i acc @ [pcm_sample (xs ! i)]) @ map pcm_sample (drop (Suc i) xs)
               = take i acc @ map pcm_sample (drop i xs)"
      using True by (simp add: Cons_nth_drop_Suc [symmetric] del: pcm_loop.simps)
    finally show ?thesis .
  next
    case False
    then have "pcm_loop xs i acc = acc"
      by (subst pcm_loop.simps) simp
    then show ?thesis using False "1.prems" by (simp del: pcm_loop.simps)
  qed
qed

lemma floatTo16BitPCM_map: "floatTo16BitPCM xs = map pcm_sample xs"
  by (simp add: floatTo16BitPCM_def pcm_loop_eq del: pcm_loop.simps)

lemma clamp_Finite:
  "Math_max (Finite (- 1)) (Math_min (Finite 1) (Finite r)) = Finite (max (- 1) (min 1 r))"
  by (auto simp: Math_max_def Math_min_def)

lemma scale_range:
  assumes "- 1 \<le> s" "s \<le> (1::rat)"
  shows "- 32768 \<le> js_trunc (if s < 0 then s * 32768 else s * 32767)"
    and "js_trunc (if s < 0 then s * 32768 else s * 32767) \<le> 32767"
proof -
  have "- 32768 \<le> js_trunc (if s < 0 then s * 32768 else s * 32767) \<and>
        js_trunc (if s < 0 then s * 32768 else s * 32767) \<le> 32767"
  proof (cases "s < 0")
    case True
    define y where "y = - (s * 32768)"
    have "0 \<le> y" "y \<le> 32768" using True assms(1) by (simp_all add: y_def)
    then have b: "0 \<le> \<lfloor>y\<rfloor>" "\<lfloor>y\<rfloor> \<le> 32768"
      by (simp_all add: floor_le_iff le_floor_iff)
    have t: "js_trunc (s * 32768) = - \<lfloor>y\<rfloor>"
      using True by (simp add: js_trunc_def y_def)
    show ?thesis unfolding if_P [OF True] t using b by linarith
  next
    case False
    define y where "y = s * 32767"
    have "0 \<le> y" "y \<le> 32767" using False assms(2) by (simp_all add: y_def)
    then have b: "0 \<le> \<lfloor>y\<rfloor>" "\<lfloor>y\<rfloor> \<le> 32767"
      by (simp_all add: floor_le_iff le_floor_iff)
    have t: "js_trunc (s * 32767) = \<lfloor>y\<rfloor>"
      using \<open>0 \<le> y\<close> by (simp add: js_trunc_def y_def)
    show ?thesis unfolding if_not_P [OF False] t using b by linarith
  qed
  then show "- 32768 \<le> js_trunc (if s < 0 then s * 32768 else s * 32767)"
    and "js_trunc (if s < 0 then s * 32768 else s * 32767) \<le> 32767" by simp_all
qed

lemma spec_encode_range: "- 32768 \<le> spec_encode r" "spec_encode r \<le> 32767"
  using scale_range [of "max (- 1) (min 1 r)"]
  by (simp_all add: spec_encode_def Let_def)

lemma sint_int16: "- 32768 \<le> k \<Longrightarrow> k \<le> 32767 \<Longrightarrow> sint (word_of_int k :: 16 word) = k"
  by (simp add: sint_sbintrunc' signed_take_bit_int_eq_self)

lemma pcm_sample_word: "pcm_sample (Finite r) = word_of_int (spec_encode r)"
proof -
  define s where "s = max (- 1) (min 1 r)"
  have "pcm_sample (Finite r) =
        ToInt16 (if js_less (Finite s) (Finite 0) then js_times (Finite s) (Finite 32768)
                 else js_times (Finite s) (Finite 32767))"
    unfolding pcm_sample_def clamp_Finite s_def Let_def ..
  also have "\<dots> = word_of_int (js_trunc (if s < 0 then s * 32768 else s * 32767))"
    by simp
  also have "js_trunc (if s < 0 then s * 32768 else s * 32767) = spec_encode r"
    unfolding spec_encode_def s_def Let_def ..
  finally show ?thesis .
qed

lemma pcm_sample_Finite: "sint (pcm_sample (Finite r)) = spec_encode r"
  unfolding pcm_sample_word using spec_encode_range [of r] by (rule sint_int16)

text \<open>NaN has no clamped value: it passes through both comparisons and is stored as 0.\<close>

lemma pcm_sample_NaN: "pcm_sample NaN = 0"
  by (simp add: pcm_sample_def Math_max_def Math_min_def)

lemma pcm_sample_infinite:
  "sint (pcm_sample PosInfinity) = 32767" "sint (pcm_sample NegInfinity) = - 32768"
  by (simp_all add: pcm_sample_def Math_max_def Math_min_def js_trunc_def)

lemma spec_encode_saturates:
  "spec_encode (max 1 r) = 32767" "spec_encode (min (- 1) r) = - 32768"
  by (simp_all add: spec_encode_def js_trunc_def Let_def)

text \<open>
  C2. The conversion is a function of its input alone and works element by element: the
  result is the input mapped through the encoding of one sample. On every finite sample
  the stored 16-bit value, read as a signed integer, is the clamped and scaled value of
  the specification (\<^term>\<open>spec_encode\<close>); it always lies in the signed 16-bit range;
  every sample of at least 1 is stored as 32767 and every sample of at most -1 as -32768,
  as are the two infinities. In particular 1.5 is stored as 32767 and -2.0 as -32768.
\<close>

theorem floatTo16BitPCM_saturating:
  "floatTo16BitPCM xs = map pcm_sample xs \<and>
   length (floatTo16BitPCM xs) = length xs \<and>
   map sint (floatTo16BitPCM (map Finite rs)) = map spec_encode rs \<and>
   - 32768 \<le> spec_encode r \<and> spec_encode r \<le> 32767 \<and>
   spec_encode (max 1 r) = 32767 \<and> spec_encode (min (- 1) r) = - 32768 \<and>
   map sint (floatTo16BitPCM [Finite (3 / 2), Finite (- 2), PosInfinity, NegInfinity])
     = [32767, - 32768, 32767, - 32768]"
proof -
  have "spec_encode (3 / 2) = 32767" "spec_encode (- 2) = - 32768"
    by (simp_all add: spec_encode_def js_trunc_def)
  then show ?thesis
    using spec_encode_range [of r] spec_encode_saturates [of r]
    by (simp add: floatTo16BitPCM_map pcm_sample_Finite pcm_sample_infinite comp_def)
qed

subsection \<open>Framing\<close>

lemma consumed_push:
  assumes "consumed N this xs"
  shows "consumed N (push this x) (xs @ [x])"
proof -
  let ?i = "bufferIndex this" and ?k = "length (port this)"
  from assms have N: "0 < N" "bufferSize this = N" "length (buffer this) = N" "?i < N"
    and len: "length xs = N * ?k + ?i"
    and buf: "take ?i (buffer this) = drop (N * ?k) xs"
    and out: "concat (port this) = map pcm_sample (take (N * ?k) xs)"
    and frames: "\<forall>frame \<in> set (port this). length frame = N"
    by (simp_all add: consumed_def)
  have stored: "take (Suc ?i) ((buffer this)[?i := x]) = drop (N * ?k) (xs @ [x])"
    using N len buf by (simp add: take_Suc_conv_app_nth)
  show ?thesis
  proof (cases "Suc ?i < N")
    case True
    then have "push this x = this\<lparr>buffer := (buffer this)[?i := x], bufferIndex := Suc ?i\<rparr>"
      using N by (simp add: push_def Let_def)
    then show ?thesis
      using True N len stored out frames by (simp add: consumed_def)
  next
    case False
    then have full: "Suc ?i = N" using N by simp
    then have p: "push this x =
        this\<lparr>buffer := replicate N (Finite 0), bufferIndex := 0,
             port := port this @ [floatTo16BitPCM ((buffer this)[?i := x])]\<rparr>"
      using N by (simp add: push_def Let_def)
    have whole: "(buffer this)[?i := x] = drop (N * ?k) (xs @ [x])"
      using stored full N by simp
    have len': "length (xs @ [x]) = N * Suc ?k"
      using len full by simp
    have t: "take (N * ?k) (xs @ [x]) = take (N * ?k) xs"
      using len by simp
    have "concat (port this) @ map pcm_sample (drop (N * ?k) (xs @ [x]))
          = map pcm_sample (take (N * ?k) (xs @ [x])) @ map pcm_sample (drop (N * ?k) (xs @ [x]))"
      unfolding t out ..
    also have "\<dots> = map pcm_sample (take (N * ?k) (xs @ [x]) @ drop (N * ?k) (xs @ [x]))"
      by (simp only: map_append)
    also have "\<dots> = map pcm_sample (xs @ [x])"
      by (simp only: append_take_drop_id)
    finally have e: "concat (port this) @ map pcm_sample (drop (N * ?k) (xs @ [x]))
          = map pcm_sample (xs @ [x])" .
    have all: "take (N * Suc ?k) (xs @ [x]) = xs @ [x]"
      using len' by (simp only: take_all order_refl)
    have out': "concat (port this) @ map pcm_sample (drop (N * ?k) (xs @ [x]))
          = map pcm_sample (take (N * Suc ?k) (xs @ [x]))"
      by (simp only: e all)
    show ?thesis
      unfolding p consumed_def
      using N len' whole out' frames by (simp add: floatTo16BitPCM_map)
  qed
qed

lemma consumed_foldl_push:
  "consumed N this xs \<Longrightarrow> consumed N (foldl push this ys) (xs @ ys)"
proof (induction ys arbitrary: this xs)
  case Nil
  then show ?case by simp
next
  case (Cons y ys)
  from Cons.IH [OF consumed_push [OF Cons.prems, of y]]
  show ?case by simp
qed

lemma consumed_run:
  "consumed N this xs \<Longrightarrow>
   \<exists>this'. run this (map (\<lambda>input. [input]) blocks) = Inr this' \<and>
           consumed N this' (xs @ delivered blocks)"
proof (induction blocks arbitrary: this xs)
  case Nil
  then show ?case by (simp add: delivered_def)
next
  case (Cons b bs)
  have "\<exists>p. process [b] this = Inr p \<and> consumed N p (xs @ first_channel b)"
    using Cons.prems
    by (cases b) (simp_all add: process_def first_channel_def consumed_foldl_push)
  then obtain p where p: "process [b] this = Inr p" "consumed N p (xs @ first_channel b)"
    by blast
  from Cons.IH [OF p(2)] p(1) show ?case
    by (simp add: delivered_def)
qed

lemma consumed_constructor: "consumed 4096 constructor []"
  by (simp add: consumed_def constructor_def)

lemma consumed_count:
  assumes "consumed N this xs"
  shows "length (port this) = length xs div N" "bufferIndex this = length xs mod N"
  using assms by (simp_all add: consumed_def)

text \<open>
  C3. Whatever blocks the audio engine delivers, among them inputs without a channel and
  channels without samples, the calls of \<^verbatim>\<open>process\<close> all return normally, and afterwards
  the number of posted frames is the number of delivered samples divided by 4096, rounded
  down; every frame has 4096 samples; the frames in order are the encoding of the
  delivered samples up to the last full block, so that no sample is repeated or skipped;
  and the samples after the last full block, fewer than 4096, sit at the start of the
  buffer, which is what a reset to empty after each emission leaves.
\<close>

theorem encoder_emits_full_frames:
  "\<exists>this. run constructor (map (\<lambda>input. [input]) blocks) = Inr this \<and>
     length (port this) = length (delivered blocks) div 4096 \<and>
     map length (port this) = replicate (length (delivered blocks) div 4096) 4096 \<and>
     concat (port this) =
       map pcm_sample (take (4096 * (length (delivered blocks) div 4096)) (delivered blocks)) \<and>
     bufferIndex this = length (delivered blocks) mod 4096 \<and>
     take (bufferIndex this) (buffer this) =
       drop (4096 * (length (delivered blocks) div 4096)) (delivered blocks)"
proof -
  from consumed_run [OF consumed_constructor, of blocks]
  obtain this where r: "run constructor (map (\<lambda>input. [input]) blocks) = Inr this"
    and c: "consumed 4096 this (delivered blocks)"
    by auto
  have k: "length (port this) = length (delivered blocks) div 4096"
    and i: "bufferIndex this = length (delivered blocks) mod 4096"
    using consumed_count [OF c] by simp_all
  have frames: "\<forall>frame \<in> set (port this). length frame = 4096"
    using c by (simp add: consumed_def)
  have lens: "map length (port this) = replicate (length (port this)) 4096"
    using frames by (simp add: map_replicate_const [symmetric] cong: map_cong)
  have out: "concat (port this) = map pcm_sample (take (4096 * length (port this)) (delivered blocks))"
    and buf: "take (bufferIndex this) (buffer this) = drop (4096 * length (port this)) (delivered blocks)"
    using c by (simp_all add: consumed_def)
  show ?thesis
    using r k i lens out buf by simp
qed

section \<open>Properties of the transcript\<close>

lemma final_or_partial: "is_final s \<longleftrightarrow> \<not> is_partial s"
  by (cases "seg_type s") (simp_all add: is_final_def is_partial_def)

lemma merge_segment_eq:
  "merge_segment now d prev =
     filter is_final prev @
       [\<lparr>seg_text = the (data_text d),
         seg_type = (if data_type d = Some ''partial'' then Partial else Final),
         seg_timestamp = now\<rparr>]"
  by (simp add: merge_segment_def Let_def)

lemma no_partial_in_finals: "filter (\<lambda>x. is_final x \<and> is_partial x) xs = []"
  by (simp add: final_or_partial)

lemma is_final_segment:
  "is_final \<lparr>seg_text = a, seg_type = k, seg_timestamp = t\<rparr> \<longleftrightarrow> k = Final"
  by (simp add: is_final_def)

lemma onmessage_transcript:
  "transcript (onmessage now d h) =
     (if (data_type d = Some ''partial'' \<or> data_type d = Some ''final'') \<and> truthy (data_text d)
      then merge_segment now d (transcript h) else transcript h)"
  by (simp add: onmessage_def Let_def split: option.splits)

lemma onmessage_tail:
  "filter is_partial (butlast (transcript h)) = [] \<Longrightarrow>
   filter is_partial (butlast (transcript (onmessage now d h))) = []"
  by (simp add: onmessage_transcript merge_segment_eq no_partial_in_finals)

lemma handle_tail:
  "filter is_partial (butlast (transcript h)) = [] \<Longrightarrow>
   filter is_partial (butlast (transcript (handle h e))) = []"
  by (cases e) (simp_all add: onmessage_tail resetTranscript_def)

lemma foldl_handle_tail:
  "filter is_partial (butlast (transcript h)) = [] \<Longrightarrow>
   filter is_partial (butlast (transcript (foldl handle h events))) = []"
  by (induction events arbitrary: h) (simp_all add: handle_tail)

lemma recording_tail:
  "filter is_partial (butlast (transcript (recording t0 n events h))) = []"
  unfolding recording_def by (rule foldl_handle_tail) (simp add: startRecording_def)

lemma tail_at_most_one:
  assumes "filter is_partial (butlast tr) = []"
  shows "length (filter is_partial tr) \<le> 1"
proof (cases tr rule: rev_cases)
  case Nil
  then show ?thesis by simp
next
  case (snoc ys y)
  then show ?thesis using assms by simp
qed

lemma tail_split:
  assumes "filter is_partial (butlast tr) = []"
  shows "filter is_final tr @ filter is_partial tr = tr"
proof (cases tr rule: rev_cases)
  case Nil
  then show ?thesis by simp
next
  case (snoc ys y)
  with assms have "filter is_partial ys = []" by simp
  then have "\<forall>x \<in> set ys. is_final x"
    by (simp add: filter_empty_conv final_or_partial)
  then have "filter is_final ys = ys" by simp
  then show ?thesis
    using snoc \<open>filter is_partial ys = []\<close> by (simp add: final_or_partial)
qed

lemma onmessage_finals:
  "filter is_final (transcript (onmessage now d h)) =
     filter is_final (transcript h) @
       (if data_type d = Some ''final'' \<and> truthy (data_text d)
        then [\<lparr>seg_text = the (data_text d), seg_type = Final, seg_timestamp = now\<rparr>]
        else [])"
  by (simp add: onmessage_transcript merge_segment_eq is_final_segment)

text \<open>
  C4. From an empty transcript, the messages Partial "he", Partial "hello" and
  Final "hello world", handled in this order, leave exactly one segment, the Final segment
  "hello world": no Partial segment remains, the committed text (the Final texts joined)
  is "hello world", and so is the transcript a stop would persist.
\<close>

theorem reconciler_example:
  "transcript (foldl handle (h\<lparr>transcript := []\<rparr>)
      [Message t1 (text_event ''partial'' ''he''), Message t2 (text_event ''partial'' ''hello''),
       Message t3 (text_event ''final'' ''hello world'')])
     = [\<lparr>seg_text = ''hello world'', seg_type = Final, seg_timestamp = t3\<rparr>] \<and>
   filter is_partial (transcript (foldl handle (h\<lparr>transcript := []\<rparr>)
      [Message t1 (text_event ''partial'' ''he''), Message t2 (text_event ''partial'' ''hello''),
       Message t3 (text_event ''final'' ''hello world'')])) = [] \<and>
   join '' '' (map seg_text (filter is_final (transcript (foldl handle (h\<lparr>transcript := []\<rparr>)
      [Message t1 (text_event ''partial'' ''he''), Message t2 (text_event ''partial'' ''hello''),
       Message t3 (text_event ''final'' ''hello world'')])))) = ''hello world'' \<and>
   session_transcript (sessionData now (foldl handle (h\<lparr>transcript := []\<rparr>)
      [Message t1 (text_event ''partial'' ''he''), Message t2 (text_event ''partial'' ''hello''),
       Message t3 (text_event ''final'' ''hello world'')])) = ''hello world''"
  by (simp add: onmessage_def merge_segment_def truthy_def text_event_def is_final_def
      is_partial_def sessionData_def)

text \<open>
  C5. In every state a recording can reach (any events after a start, from any earlier
  state of the page), the transcript holds at most one Partial segment and none before
  its last position. Handling one more message of any kind keeps the Final segments as
  they are and in their order: the Final segments afterwards are those before, followed
  by the new segment when the message is a final one with text.
\<close>

theorem transcript_invariant:
  "length (filter is_partial (transcript (recording t0 n events h))) \<le> 1 \<and>
   filter is_partial (butlast (transcript (recording t0 n events h))) = [] \<and>
   filter is_final (transcript (onmessage now d (recording t0 n events h))) =
     filter is_final (transcript (recording t0 n events h)) @
       (if data_type d = Some ''final'' \<and> truthy (data_text d)
        then [\<lparr>seg_text = the (data_text d), seg_type = Final, seg_timestamp = now\<rparr>]
        else []) \<and>
   prefix (filter is_final (transcript (recording t0 n events h)))
     (filter is_final (transcript (recording t0 n (events @ [Message now d]) h)))"
proof -
  have "recording t0 n (events @ [Message now d]) h = onmessage now d (recording t0 n events h)"
    by (simp add: recording_def)
  then show ?thesis
    using recording_tail [of t0 n events h] tail_at_most_one [OF recording_tail [of t0 n events h]]
    by (simp add: onmessage_finals)
qed

text \<open>
  C1, as the code has it. The transcript that a stop persists is the texts of all segments
  of the transcript joined by single spaces: the Final texts in arrival order, followed by
  the text of the live Partial segment when there is one (there is at most one).
\<close>

theorem stop_transcript_joins_all_segments:
  "session_transcript (sessionData now (recording t0 n events h)) =
     join '' '' (map seg_text (filter is_final (transcript (recording t0 n events h)))
                 @ map seg_text (filter is_partial (transcript (recording t0 n events h)))) \<and>
   length (filter is_partial (transcript (recording t0 n events h))) \<le> 1"
proof -
  let ?tr = "transcript (recording t0 n events h)"
  have "map seg_text (filter is_final ?tr) @ map seg_text (filter is_partial ?tr) = map seg_text ?tr"
    using tail_split [OF recording_tail [of t0 n events h]]
    by (simp only: map_append [symmetric])
  then show ?thesis
    using tail_at_most_one [OF recording_tail [of t0 n events h]]
    by (simp add: sessionData_def)
qed

text \<open>
  C1, as stated, fails: a recording that received only the message Partial "he" has no
  Final segment, yet a stop persists the transcript "he".
\<close>

theorem stop_transcript_includes_live_partial:
  "session_transcript
     (sessionData 2000
        (recording 1000 1 [Message 1500 (text_event ''partial'' ''he'')] initial_home)) = ''he'' \<and>
   filter is_final
     (transcript (recording 1000 1 [Message 1500 (text_event ''partial'' ''he'')] initial_home)) = []"
  by (simp add: sessionData_def recording_def startRecording_def onmessage_def text_event_def
      merge_segment_def truthy_def initial_home_def is_final_def)

section \<open>Properties of the message handler\<close>

text \<open>
  C9. A message whose type is none of \<^verbatim>\<open>connected\<close>, \<^verbatim>\<open>partial\<close>, \<^verbatim>\<open>final\<close>,
  \<^verbatim>\<open>model_switched\<close> and \<^verbatim>\<open>error\<close> (or is absent) leaves the whole state of the page as it
  was, and with it the transcript, the metrics history, the current model and the status.
\<close>

theorem unknown_type_ignored:
  "data_type d \<notin> {Some ''connected'', Some ''partial'', Some ''final'',
                   Some ''model_switched'', Some ''error''}
   \<Longrightarrow> onmessage now d h = h"
  by (simp add: onmessage_def)

theorem unknown_type_ignored_witness:
  "data_type (text_event ''ping'' ''hello'') \<notin>
     {Some ''connected'', Some ''partial'', Some ''final'', Some ''model_switched'', Some ''error''} \<and>
   onmessage 1500 (text_event ''ping'' ''hello'')
     (recording 1000 1 [Message 1200 (text_event ''final'' ''hi'')] initial_home)
   = recording 1000 1 [Message 1200 (text_event ''final'' ''hi'')] initial_home"
  using unknown_type_ignored [of "text_event ''ping'' ''hello''" 1500
      "recording 1000 1 [Message 1200 (text_event ''final'' ''hi'')] initial_home"]
  by (simp add: text_event_def)

text \<open>
  C10. A partial or final message whose text is absent or empty leaves the transcript as
  it was; a metrics object it carries is still appended to the metrics history and becomes
  the displayed metrics, and without one both stay as they were.
\<close>

theorem empty_text_keeps_transcript:
  "data_type d = Some ''partial'' \<or> data_type d = Some ''final'' \<Longrightarrow>
   data_text d = None \<or> data_text d = Some [] \<Longrightarrow>
   transcript (onmessage now d h) = transcript h \<and>
   metricsHistoryRef (onmessage now d h) =
     metricsHistoryRef h @ (case data_metrics d of None \<Rightarrow> [] | Some m \<Rightarrow> [m]) \<and>
   metrics (onmessage now d h) = (case data_metrics d of None \<Rightarrow> metrics h | Some m \<Rightarrow> Some m)"
  by (auto simp: onmessage_def truthy_def split: option.splits)

theorem empty_text_keeps_transcript_witness:
  "(data_type silence_with_metrics = Some ''partial'' \<or>
    data_type silence_with_metrics = Some ''final'') \<and>
   (data_text silence_with_metrics = None \<or> data_text silence_with_metrics = Some []) \<and>
   map seg_text (transcript (onmessage 1500 silence_with_metrics
     (recording 1000 1 [Message 1200 (text_event ''partial'' ''he'')] initial_home))) = [''he''] \<and>
   map rtf (metricsHistoryRef (onmessage 1500 silence_with_metrics
     (recording 1000 1 [Message 1200 (text_event ''partial'' ''he'')] initial_home))) = [2 / 5] \<and>
   map_option rtf (metrics (onmessage 1500 silence_with_metrics
     (recording 1000 1 [Message 1200 (text_event ''partial'' ''he'')] initial_home))) = Some (2 / 5)"
  using empty_text_keeps_transcript [of silence_with_metrics 1500
      "recording 1000 1 [Message 1200 (text_event ''partial'' ''he'')] initial_home"]
  by (simp add: silence_with_metrics_def text_event_def recording_def startRecording_def
      onmessage_def merge_segment_def truthy_def initial_home_def)

section \<open>Properties of the stop of a recording\<close>

lemma attempted_append:
  "attempted throws (xs @ ys) =
     (if first_throw throws xs = None then xs @ attempted throws ys else attempted throws xs)"
  by (induction xs) simp_all

lemma first_throw_append:
  "first_throw throws (xs @ ys) =
     (if first_throw throws xs = None then first_throw throws ys else first_throw throws xs)"
  by (induction xs) simp_all

lemma stop_each_eq:
  "stop_each throws ts h =
     (h\<lparr>calls := calls h @ attempted throws (map TrackStop ts)\<rparr>,
      first_throw throws (map TrackStop ts))"
  by (induction ts arbitrary: h) (simp_all add: and_then_def invoke_def)

lemma attempted_all: "first_throw throws cs = None \<Longrightarrow> attempted throws cs = cs"
  by (induction cs) (simp_all split: if_splits)



lemma follows_and_then:
  assumes "follows throws cs1 h h1 r"
    and "calls h1 = calls h @ cs1" "isRecording h1 = isRecording h" "status h1 = status h"
    and "follows throws cs2 h1 h2 (f h1)"
  shows "follows throws (cs1 @ cs2) h h2 (and_then r f)"
proof (cases "first_throw throws cs1")
  case None
  with assms(1) have r: "r = (h1, None)" by (simp add: follows_def)
  then have e: "and_then r f = f h1" by (simp add: and_then_def)
  have a: "attempted throws (cs1 @ cs2) = cs1 @ attempted throws cs2"
    and t: "first_throw throws (cs1 @ cs2) = first_throw throws cs2"
    using None by (simp_all add: attempted_append first_throw_append)
  show ?thesis
  proof (cases "first_throw throws cs2")
    case None
    with assms(5) show ?thesis by (simp add: follows_def e t)
  next
    case (Some c)
    with assms(5) have "snd (f h1) = Some c"
      "calls (fst (f h1)) = calls h1 @ attempted throws cs2"
      "isRecording (fst (f h1)) = isRecording h1" "status (fst (f h1)) = status h1"
      by (simp_all add: follows_def)
    then show ?thesis
      using Some assms(2-4) by (simp add: follows_def e t a)
  qed
next
  case (Some c)
  with assms(1) have r: "snd r = Some c" "calls (fst r) = calls h @ attempted throws cs1"
    "isRecording (fst r) = isRecording h" "status (fst r) = status h"
    by (simp_all add: follows_def)
  have e: "and_then r f = r" using r(1) by (simp add: and_then_def)
  have a: "attempted throws (cs1 @ cs2) = attempted throws cs1"
    and t: "first_throw throws (cs1 @ cs2) = Some c"
    using Some by (simp_all add: attempted_append first_throw_append)
  show ?thesis using r by (simp add: follows_def e t a)
qed

lemma follows_save:
  "follows throws [GetItem, JSON_parse, SetItem] h
     (h\<lparr>calls := calls h @ [GetItem, JSON_parse, SetItem],
        localStorage := Some ((case localStorage h of None \<Rightarrow> [] | Some stored \<Rightarrow> stored)
                               @ [sessionData now h])\<rparr>)
     (save_session throws now h)"
  by (simp add: follows_def save_session_def and_then_def invoke_def Let_def)

lemma follows_close_ws:
  "follows throws (if wsRef h then [WsClose] else []) h
     (h\<lparr>calls := calls h @ (if wsRef h then [WsClose] else []), wsRef := False\<rparr>)
     (close_ws throws h)"
  by (cases h) (simp add: follows_def close_ws_def and_then_def invoke_def)

lemma follows_disconnect_worklet:
  "follows throws (if workletNodeRef h then [WorkletDisconnect] else []) h
     (h\<lparr>calls := calls h @ (if workletNodeRef h then [WorkletDisconnect] else []),
        workletNodeRef := False\<rparr>)
     (disconnect_worklet throws h)"
  by (cases h) (simp add: follows_def disconnect_worklet_def and_then_def invoke_def)

lemma follows_close_context:
  "follows throws (if audioContextRef h then [AudioContextClose] else []) h
     (h\<lparr>calls := calls h @ (if audioContextRef h then [AudioContextClose] else []),
        audioContextRef := False\<rparr>)
     (close_context throws h)"
  by (cases h) (simp add: follows_def close_context_def and_then_def invoke_def)

lemma follows_stop_tracks:
  "follows throws (case streamRef h of None \<Rightarrow> [] | Some n \<Rightarrow> map TrackStop [0..<n]) h
     (h\<lparr>calls := calls h @ (case streamRef h of None \<Rightarrow> [] | Some n \<Rightarrow> map TrackStop [0..<n]),
        streamRef := None\<rparr>)
     (stop_tracks throws h)"
proof (cases "streamRef h")
  case None
  then show ?thesis by (cases h) (simp add: follows_def stop_tracks_def)
next
  case (Some n)
  show ?thesis
  proof (cases "first_throw throws (map TrackStop [0..<n])")
    case None
    then show ?thesis
      using Some by (simp add: follows_def stop_tracks_def stop_each_eq and_then_def attempted_all)
  next
    case (Some c)
    then show ?thesis
      using \<open>streamRef h = Some n\<close>
      by (simp add: follows_def stop_tracks_def stop_each_eq and_then_def)
  qed
qed


lemma follows_finish: "follows throws [] h h' (h', None)"
  by (simp add: follows_def)

lemma follows_teardown4:
  "follows throws (case streamRef h of None \<Rightarrow> [] | Some n \<Rightarrow> map TrackStop [0..<n]) h
     (h\<lparr>calls := calls h @ (case streamRef h of None \<Rightarrow> [] | Some n \<Rightarrow> map TrackStop [0..<n]),
        streamRef := None, isRecording := False, status := ''Stopped''\<rparr>)
     (and_then (stop_tracks throws h)
        (\<lambda>h5. (h5\<lparr>isRecording := False, status := ''Stopped''\<rparr>, None)))"
proof -
  let ?T = "case streamRef h of None \<Rightarrow> [] | Some n \<Rightarrow> map TrackStop [0..<n]"
  let ?h1 = "h\<lparr>calls := calls h @ ?T, streamRef := None\<rparr>"
  let ?f = "\<lambda>h5. (h5\<lparr>isRecording := False, status := ''Stopped''\<rparr>, None :: call option)"
  have "follows throws (?T @ []) h (?h1\<lparr>isRecording := False, status := ''Stopped''\<rparr>)
          (and_then (stop_tracks throws h) ?f)"
  proof (rule follows_and_then [where ?h1.0 = ?h1 and f = ?f])
    show "follows throws ?T h ?h1 (stop_tracks throws h)" by (rule follows_stop_tracks)
    show "follows throws [] ?h1 (?h1\<lparr>isRecording := False, status := ''Stopped''\<rparr>) (?f ?h1)"
      by (rule follows_finish)
  qed simp_all
  then show ?thesis by simp
qed

lemma follows_teardown3:
  "follows throws
     ((if audioContextRef h then [AudioContextClose] else [])
      @ (case streamRef h of None \<Rightarrow> [] | Some n \<Rightarrow> map TrackStop [0..<n])) h
     (h\<lparr>calls := calls h @ (if audioContextRef h then [AudioContextClose] else [])
                 @ (case streamRef h of None \<Rightarrow> [] | Some n \<Rightarrow> map TrackStop [0..<n]),
        audioContextRef := False, streamRef := None, isRecording := False, status := ''Stopped''\<rparr>)
     (and_then (close_context throws h) (\<lambda>h4.
      and_then (stop_tracks throws h4)
        (\<lambda>h5. (h5\<lparr>isRecording := False, status := ''Stopped''\<rparr>, None))))"
proof -
  let ?C = "if audioContextRef h then [AudioContextClose] else []"
  let ?T = "case streamRef h of None \<Rightarrow> [] | Some n \<Rightarrow> map TrackStop [0..<n]"
  let ?h1 = "h\<lparr>calls := calls h @ ?C, audioContextRef := False\<rparr>"
  let ?h2 = "?h1\<lparr>calls := calls ?h1 @ ?T, streamRef := None, isRecording := False,
                  status := ''Stopped''\<rparr>"
  let ?f = "\<lambda>h4. and_then (stop_tracks throws h4)
              (\<lambda>h5. (h5\<lparr>isRecording := False, status := ''Stopped''\<rparr>, None))"
  have f: "follows throws (?C @ ?T) h ?h2 (and_then (close_context throws h) ?f)"
  proof (rule follows_and_then [where ?h1.0 = ?h1 and f = ?f])
    show "follows throws ?C h ?h1 (close_context throws h)" by (rule follows_close_context)
    show "follows throws ?T ?h1 ?h2 (?f ?h1)"
      using follows_teardown4 [of throws ?h1] by simp
  qed simp_all
  have eq: "?h2 = h\<lparr>calls := calls h @ ?C @ ?T, audioContextRef := False, streamRef := None, isRecording := False, status := ''Stopped''\<rparr>"
    by (cases h) simp
  show ?thesis
    using f unfolding eq .
qed

lemma follows_teardown2:
  "follows throws
     ((if workletNodeRef h then [WorkletDisconnect] else [])
      @ (if audioContextRef h then [AudioContextClose] else [])
      @ (case streamRef h of None \<Rightarrow> [] | Some n \<Rightarrow> map TrackStop [0..<n])) h
     (h\<lparr>calls := calls h @ (if workletNodeRef h then [WorkletDisconnect] else [])
                 @ (if audioContextRef h then [AudioContextClose] else [])
                 @ (case streamRef h of None \<Rightarrow> [] | Some n \<Rightarrow> map TrackStop [0..<n]),
        workletNodeRef := False, audioContextRef := False, streamRef := None,
        isRecording := False, status := ''Stopped''\<rparr>)
     (and_then (disconnect_worklet throws h) (\<lambda>h3.
      and_then (close_context throws h3) (\<lambda>h4.
      and_then (stop_tracks throws h4)
        (\<lambda>h5. (h5\<lparr>isRecording := False, status := ''Stopped''\<rparr>, None)))))"
proof -
  let ?D = "if workletNodeRef h then [WorkletDisconnect] else []"
  let ?R = "(if audioContextRef h then [AudioContextClose] else [])
            @ (case streamRef h of None \<Rightarrow> [] | Some n \<Rightarrow> map TrackStop [0..<n])"
  let ?h1 = "h\<lparr>calls := calls h @ ?D, workletNodeRef := False\<rparr>"
  let ?h2 = "?h1\<lparr>calls := calls ?h1 @ ?R, audioContextRef := False, streamRef := None,
                  isRecording := False, status := ''Stopped''\<rparr>"
  let ?f = "\<lambda>h3. and_then (close_context throws h3) (\<lambda>h4.
              and_then (stop_tracks throws h4)
                (\<lambda>h5. (h5\<lparr>isRecording := False, status := ''Stopped''\<rparr>, None)))"
  have f: "follows throws (?D @ ?R) h ?h2 (and_then (disconnect_worklet throws h) ?f)"
  proof (rule follows_and_then [where ?h1.0 = ?h1 and f = ?f])
    show "follows throws ?D h ?h1 (disconnect_worklet throws h)"
      by (rule follows_disconnect_worklet)
    show "follows throws ?R ?h1 ?h2 (?f ?h1)"
      using follows_teardown3 [of throws ?h1] by simp
  qed simp_all
  have eq: "?h2 = h\<lparr>calls := calls h @ ?D @ ?R, workletNodeRef := False, audioContextRef := False, streamRef := None, isRecording := False, status := ''Stopped''\<rparr>"
    by (cases h) simp
  show ?thesis
    using f unfolding eq .
qed

lemma follows_teardown1:
  "follows throws
     ((if wsRef h then [WsClose] else [])
      @ (if workletNodeRef h then [WorkletDisconnect] else [])
      @ (if audioContextRef h then [AudioContextClose] else [])
      @ (case streamRef h of None \<Rightarrow> [] | Some n \<Rightarrow> map TrackStop [0..<n])) h
     (h\<lparr>calls := calls h @ (if wsRef h then [WsClose] else [])
                 @ (if workletNodeRef h then [WorkletDisconnect] else [])
                 @ (if audioContextRef h then [AudioContextClose] else [])
                 @ (case streamRef h of None \<Rightarrow> [] | Some n \<Rightarrow> map TrackStop [0..<n]),
        wsRef := False, workletNodeRef := False, audioContextRef := False, streamRef := None,
        isRecording := False, status := ''Stopped''\<rparr>)
     (and_then (close_ws throws h) (\<lambda>h2.
      and_then (disconnect_worklet throws h2) (\<lambda>h3.
      and_then (close_context throws h3) (\<lambda>h4.
      and_then (stop_tracks throws h4)
        (\<lambda>h5. (h5\<lparr>isRecording := False, status := ''Stopped''\<rparr>, None))))))"
proof -
  let ?W = "if wsRef h then [WsClose] else []"
  let ?R = "(if workletNodeRef h then [WorkletDisconnect] else [])
            @ (if audioContextRef h then [AudioContextClose] else [])
            @ (case streamRef h of None \<Rightarrow> [] | Some n \<Rightarrow> map TrackStop [0..<n])"
  let ?h1 = "h\<lparr>calls := calls h @ ?W, wsRef := False\<rparr>"
  let ?h2 = "?h1\<lparr>calls := calls ?h1 @ ?R, workletNodeRef := False, audioContextRef := False,
                  streamRef := None, isRecording := False, status := ''Stopped''\<rparr>"
  let ?f = "\<lambda>h2. and_then (disconnect_worklet throws h2) (\<lambda>h3.
              and_then (close_context throws h3) (\<lambda>h4.
              and_then (stop_tracks throws h4)
                (\<lambda>h5. (h5\<lparr>isRecording := False, status := ''Stopped''\<rparr>, None))))"
  have f: "follows throws (?W @ ?R) h ?h2 (and_then (close_ws throws h) ?f)"
  proof (rule follows_and_then [where ?h1.0 = ?h1 and f = ?f])
    show "follows throws ?W h ?h1 (close_ws throws h)" by (rule follows_close_ws)
    show "follows throws ?R ?h1 ?h2 (?f ?h1)"
      using follows_teardown2 [of throws ?h1] by simp
  qed simp_all
  have eq: "?h2 = h\<lparr>calls := calls h @ ?W @ ?R, wsRef := False, workletNodeRef := False, audioContextRef := False, streamRef := None, isRecording := False, status := ''Stopped''\<rparr>"
    by (cases h) simp
  show ?thesis
    using f unfolding eq .
qed

lemma follows_stopRecording:
  "follows throws (plan h) h
     (h\<lparr>calls := calls h @ plan h,
        localStorage := Some ((case localStorage h of None \<Rightarrow> [] | Some stored \<Rightarrow> stored)
                               @ [sessionData now h]),
        wsRef := False, workletNodeRef := False, audioContextRef := False, streamRef := None,
        isRecording := False, status := ''Stopped''\<rparr>)
     (stopRecording throws now h)"
proof -
  let ?S = "[GetItem, JSON_parse, SetItem]"
  let ?R = "(if wsRef h then [WsClose] else [])
            @ (if workletNodeRef h then [WorkletDisconnect] else [])
            @ (if audioContextRef h then [AudioContextClose] else [])
            @ (case streamRef h of None \<Rightarrow> [] | Some n \<Rightarrow> map TrackStop [0..<n])"
  let ?h1 = "h\<lparr>calls := calls h @ ?S,
        localStorage := Some ((case localStorage h of None \<Rightarrow> [] | Some stored \<Rightarrow> stored)
                               @ [sessionData now h])\<rparr>"
  let ?h2 = "?h1\<lparr>calls := calls ?h1 @ ?R, wsRef := False, workletNodeRef := False,
                  audioContextRef := False, streamRef := None, isRecording := False,
                  status := ''Stopped''\<rparr>"
  let ?f = "\<lambda>h1. and_then (close_ws throws h1) (\<lambda>h2.
              and_then (disconnect_worklet throws h2) (\<lambda>h3.
              and_then (close_context throws h3) (\<lambda>h4.
              and_then (stop_tracks throws h4)
                (\<lambda>h5. (h5\<lparr>isRecording := False, status := ''Stopped''\<rparr>, None)))))"
  have f: "follows throws (?S @ ?R) h ?h2 (and_then (save_session throws now h) ?f)"
  proof (rule follows_and_then [where ?h1.0 = ?h1 and f = ?f])
    show "follows throws ?S h ?h1 (save_session throws now h)" by (rule follows_save)
    show "follows throws ?R ?h1 ?h2 (?f ?h1)"
      using follows_teardown1 [of throws ?h1] by simp
  qed simp_all
  have eq: "?h2 = h\<lparr>calls := calls h @ ?S @ ?R,
        localStorage := Some ((case localStorage h of None \<Rightarrow> [] | Some stored \<Rightarrow> stored)
                               @ [sessionData now h]),
        wsRef := False, workletNodeRef := False, audioContextRef := False, streamRef := None,
        isRecording := False, status := ''Stopped''\<rparr>"
    by (cases h) simp
  show ?thesis
    using f unfolding eq plan_def stopRecording_def .
qed

text \<open>
  C6, as the code has it. The calls a stop makes are those of its plan (the save of the
  session, then close the streaming session, disconnect the audio bridge, close the audio
  context, stop every track, each for a ref that is set) in that order, up to and
  including the first call that raises. When none raises, the session is appended to the
  store, every ref is cleared, and the page is marked stopped. When one raises, the stop
  ends with that exception: no later call is made, and the recording flag and the status
  stay as they were.
\<close>

theorem stopRecording_teardown_order:
  "calls (fst (stopRecording throws now h)) = calls h @ attempted throws (plan h) \<and>
   snd (stopRecording throws now h) = first_throw throws (plan h) \<and>
   (first_throw throws (plan h) = None \<longrightarrow>
      stopRecording throws now h =
        (h\<lparr>calls := calls h @ plan h,
           localStorage := Some ((case localStorage h of None \<Rightarrow> [] | Some stored \<Rightarrow> stored)
                                  @ [sessionData now h]),
           wsRef := False, workletNodeRef := False, audioContextRef := False, streamRef := None,
           isRecording := False, status := ''Stopped''\<rparr>, None)) \<and>
   (first_throw throws (plan h) \<noteq> None \<longrightarrow>
      isRecording (fst (stopRecording throws now h)) = isRecording h \<and>
      status (fst (stopRecording throws now h)) = status h)"
  using follows_stopRecording [of throws h now]
  by (cases "first_throw throws (plan h)") (simp_all add: follows_def attempted_all)

theorem stopRecording_teardown_order_witness:
  "first_throw no_throw (plan (startRecording 1000 1 initial_home)) = None \<and>
   calls (fst (stopRecording no_throw 2000 (startRecording 1000 1 initial_home))) =
     [GetItem, JSON_parse, SetItem, WsClose, WorkletDisconnect, AudioContextClose, TrackStop 0] \<and>
   snd (stopRecording no_throw 2000 (startRecording 1000 1 initial_home)) = None \<and>
   \<not> isRecording (fst (stopRecording no_throw 2000 (startRecording 1000 1 initial_home))) \<and>
   first_throw quota_exceeded (plan (startRecording 1000 1 initial_home)) \<noteq> None \<and>
   calls (fst (stopRecording quota_exceeded 2000 (startRecording 1000 1 initial_home))) =
     [GetItem, JSON_parse, SetItem] \<and>
   isRecording (fst (stopRecording quota_exceeded 2000 (startRecording 1000 1 initial_home)))"
  using stopRecording_teardown_order [of no_throw 2000 "startRecording 1000 1 initial_home"]
    stopRecording_teardown_order [of quota_exceeded 2000 "startRecording 1000 1 initial_home"]
  by (simp add: plan_def startRecording_def initial_home_def no_throw_def quota_exceeded_def)

text \<open>
  C6, as stated, fails: when the write to the store raises (the store is over quota), the
  stop ends there. None of the four teardown calls is made, the refs stay set and the page
  still counts as recording.
\<close>

theorem stopRecording_storage_failure_skips_teardown:
  "calls (fst (stopRecording quota_exceeded 2000 (startRecording 1000 1 initial_home)))
     = [GetItem, JSON_parse, SetItem] \<and>
   snd (stopRecording quota_exceeded 2000 (startRecording 1000 1 initial_home)) = Some SetItem \<and>
   wsRef (fst (stopRecording quota_exceeded 2000 (startRecording 1000 1 initial_home))) \<and>
   workletNodeRef (fst (stopRecording quota_exceeded 2000 (startRecording 1000 1 initial_home))) \<and>
   audioContextRef (fst (stopRecording quota_exceeded 2000 (startRecording 1000 1 initial_home))) \<and>
   streamRef (fst (stopRecording quota_exceeded 2000 (startRecording 1000 1 initial_home))) = Some 1 \<and>
   isRecording (fst (stopRecording quota_exceeded 2000 (startRecording 1000 1 initial_home)))"
  by (simp add: stopRecording_def save_session_def and_then_def invoke_def quota_exceeded_def
      startRecording_def initial_home_def Let_def)

section \<open>Properties of the comparison view\<close>

lemma toggle_le2: "length prev \<le> 2 \<Longrightarrow> length (toggleSession i prev) \<le> 2"
  unfolding toggleSession_def slice_last_def
  by (auto intro: order_trans [OF length_filter_le])

lemma act_le2: "length (selectedSessions v) \<le> 2 \<Longrightarrow> length (selectedSessions (act v a)) \<le> 2"
  by (cases a) (auto simp: loadSessions_def clearSessions_def Let_def toggle_le2 split: option.splits)

lemma foldl_act_le2: "length (selectedSessions v) \<le> 2 \<Longrightarrow> length (selectedSessions (foldl act v as)) \<le> 2"
  by (induction as arbitrary: v) (auto simp: act_le2)

text \<open>
  C8. Whatever the user does in the view (loading, clearing, toggling, in any order), at
  most two sessions are selected. Toggling 0, 1 and 2 in this order from the empty
  selection leaves 1 and 2. Toggling an index that is not selected while two are evicts
  the one added first; toggling one of the two deselects it.
\<close>

theorem selection_window:
  "length (selectedSessions (foldl act initial_view actions)) \<le> 2 \<and>
   selectedSessions (foldl act initial_view [ToggleSession 0, ToggleSession 1, ToggleSession 2])
     = [1, 2] \<and>
   toggleSession 2 (toggleSession 1 (toggleSession 0 [])) = [1, 2] \<and>
   toggleSession i [a, b] =
     (if i = a \<or> i = b then filter (\<lambda>j. j \<noteq> i) [a, b] else [b, i])"
proof -
  have "length (selectedSessions (foldl act initial_view actions)) \<le> 2"
    by (rule foldl_act_le2) (simp add: initial_view_def)
  then show ?thesis
    by (simp add: toggleSession_def slice_last_def initial_view_def)
qed

subsection \<open>Rounding to binary64\<close>

lemma two_to_eq: "0 \<le> k \<Longrightarrow> two_to k = 2 ^ nat k"
proof (induction k rule: two_to.induct)
  case (1 k)
  show ?case
  proof (cases "k \<le> 0")
    case True
    with "1.prems" have "k = 0" by simp
    then show ?thesis by (subst two_to.simps) simp
  next
    case False
    then have h: "two_to (k div 2) = 2 ^ nat (k div 2)"
      using "1.IH" by simp
    define m where "m = nat (k div 2)"
    have split: "nat k = (if even k then m + m else Suc (m + m))"
      using False unfolding m_def by (auto elim!: evenE oddE)
    have "two_to k = (if even k then 2 ^ m * 2 ^ m else 2 * 2 ^ m * 2 ^ m)"
      using False unfolding m_def by (subst two_to.simps) (simp add: h Let_def)
    also have "\<dots> = 2 ^ nat k"
      unfolding split by (simp add: power_add)
    finally show ?thesis .
  qed
qed

lemma pow2_pos: "0 < pow2 e"
  by (simp add: pow2_def two_to_eq)

lemma pow2_eq: "pow2 e = 2 powi e"
  by (simp add: pow2_def two_to_eq power_int_def field_simps)

lemma bit_length_bounds:
  "0 < n \<Longrightarrow> 2 ^ bit_length n \<le> 2 * n \<and> n < 2 ^ bit_length n"
proof (induction n rule: bit_length.induct)
  case (1 n)
  show ?case
  proof (cases "n = 1")
    case True
    have "bit_length 1 = 1"
      by (subst bit_length.simps, simp, subst bit_length.simps, simp)
    then show ?thesis using True by simp
  next
    case False
    with "1.prems" have pos: "0 < n div 2" by simp
    have bl: "bit_length n = Suc (bit_length (n div 2))"
      using "1.prems" by (subst bit_length.simps) simp
    from "1.IH" pos "1.prems"
    have ih: "2 ^ bit_length (n div 2) \<le> 2 * (n div 2)" "n div 2 < 2 ^ bit_length (n div 2)"
      by simp_all
    have "2 * (n div 2) \<le> n" by simp
    moreover have "n < 2 * (n div 2) + 2" by presburger
    ultimately show ?thesis
      using ih unfolding bl by simp
  qed
qed


lemma binade_bounds:
  assumes "0 < x"
  shows "pow2 (binade x) \<le> x" "x < pow2 (binade x + 1)"
proof -
  obtain a b where q: "quotient_of x = (a, b)" by (cases "quotient_of x")
  then have b: "0 < b" and x: "x = of_int a / of_int b"
    by (simp_all add: quotient_of_denom_pos quotient_of_div)
  with assms have a: "0 < a"
    by (simp add: zero_less_divide_iff)
  define la lb where "la = bit_length a" and "lb = bit_length b"
  have A: "(2::int) ^ la \<le> 2 * a" "a < 2 ^ la" and B: "(2::int) ^ lb \<le> 2 * b" "b < 2 ^ lb"
    using bit_length_bounds [OF a] bit_length_bounds [OF b] by (simp_all add: la_def lb_def)
  have ra: "(2::rat) ^ la \<le> 2 * of_int a" "(of_int a :: rat) < 2 ^ la"
    and rb: "(2::rat) ^ lb \<le> 2 * of_int b" "(of_int b :: rat) < 2 ^ lb"
    using A B by (metis of_int_le_iff of_int_mult of_int_numeral of_int_power,
        metis of_int_less_iff of_int_numeral of_int_power,
        metis of_int_le_iff of_int_mult of_int_numeral of_int_power,
        metis of_int_less_iff of_int_numeral of_int_power)
  define e0 where "e0 = int la - int lb"
  have p: "pow2 e0 = 2 ^ la / 2 ^ lb" "pow2 (e0 + 1) = 2 * 2 ^ la / 2 ^ lb"
    "pow2 (e0 - 1) = 2 ^ la / (2 * 2 ^ lb)"
    by (simp_all add: pow2_eq e0_def power_int_diff power_int_add field_simps)
  have bpos: "(0::rat) < of_int b" using b by simp
  have "of_int a * 2 ^ lb < (2::rat) ^ la * 2 ^ lb"
    using ra(2) by simp
  also have "\<dots> \<le> 2 ^ la * (2 * of_int b)"
    using rb(1) by simp
  finally have "of_int a / of_int b < (2::rat) * 2 ^ la / 2 ^ lb"
    using bpos by (simp add: field_simps)
  then have up: "x < pow2 (e0 + 1)"
    unfolding x p(2) .
  have "(2::rat) ^ la * of_int b \<le> 2 * of_int a * of_int b"
    using ra(1) bpos by simp
  also have "\<dots> \<le> 2 * of_int a * 2 ^ lb"
    using rb(2) a by simp
  finally have "(2::rat) ^ la / (2 * 2 ^ lb) \<le> of_int a / of_int b"
    using bpos by (simp add: field_simps)
  then have low: "pow2 (e0 - 1) \<le> x"
    unfolding x p(3) .
  have bin: "binade x = (if pow2 e0 \<le> x then e0 else e0 - 1)"
    by (simp add: binade_def q la_def lb_def e0_def Let_def)
  show "pow2 (binade x) \<le> x"
    using low by (simp add: bin)
  show "x < pow2 (binade x + 1)"
    using up by (simp add: bin not_le)
qed

lemma round_half_even_near: "\<bar>of_int (round_half_even y) - y\<bar> \<le> 1 / 2"
proof -
  have "of_int \<lfloor>y\<rfloor> \<le> y" "y < of_int \<lfloor>y\<rfloor> + 1"
    by linarith+
  then show ?thesis
    by (auto simp: round_half_even_def Let_def)
qed

lemma round_double_near:
  assumes "round_double x = Finite y"
  shows "\<bar>y - x\<bar> \<le> pow2 (max (binade \<bar>x\<bar>) (- 1022) - 52) / 2"
proof (cases "x = 0")
  case True
  with assms show ?thesis using pow2_pos [of "max (binade \<bar>x\<bar>) (- 1022) - 52"]
    by (simp add: round_double_def less_imp_le)
next
  case False
  define q where "q = pow2 (max (binade \<bar>x\<bar>) (- 1022) - 52)"
  define n where "n = round_half_even (\<bar>x\<bar> / q)"
  have q: "0 < q" by (simp add: q_def pow2_pos)
  from assms False have y: "y = (if 0 < x then of_int n * q else - (of_int n * q))"
    by (simp add: round_double_def Let_def q_def n_def split: if_splits)
  have "of_int n * q - \<bar>x\<bar> = (of_int n - \<bar>x\<bar> / q) * q"
    using q by (simp add: field_simps)
  then have "\<bar>of_int n * q - \<bar>x\<bar>\<bar> = \<bar>of_int n - \<bar>x\<bar> / q\<bar> * q"
    using q by (simp add: abs_mult)
  also have "\<dots> \<le> 1 / 2 * q"
    using round_half_even_near [of "\<bar>x\<bar> / q"] q
    by (intro mult_right_mono) (simp_all add: n_def)
  finally have near: "\<bar>of_int n * q - \<bar>x\<bar>\<bar> \<le> q / 2" by simp
  have "\<bar>y - x\<bar> = \<bar>of_int n * q - \<bar>x\<bar>\<bar>"
  proof (cases "0 < x")
    case True
    then show ?thesis by (simp add: y)
  next
    case neg: False
    then have "y - x = - (of_int n * q - \<bar>x\<bar>)"
      using False by (simp add: y)
    then show ?thesis by (simp only: abs_minus)
  qed
  with near show ?thesis
    by (simp add: q_def)
qed


lemma pow2_less_imp: "pow2 a < pow2 b \<Longrightarrow> a < b"
proof (rule ccontr)
  assume "pow2 a < pow2 b" "\<not> a < b"
  then have "(2::rat) powi b \<le> 2 powi a"
    by (intro power_int_increasing) simp_all
  with \<open>pow2 a < pow2 b\<close> show False by (simp add: pow2_eq)
qed

lemma round_double_relative:
  assumes "round_double x = Finite y" "pow2 (- 1022) \<le> \<bar>x\<bar>"
  shows "\<bar>y - x\<bar> \<le> \<bar>x\<bar> / 2 ^ 53"
proof -
  have pos: "0 < \<bar>x\<bar>" using assms(2) pow2_pos [of "- 1022"] by linarith
  have "pow2 (- 1022) < pow2 (binade \<bar>x\<bar> + 1)"
    using assms(2) binade_bounds(2) [OF pos] by linarith
  then have "- 1022 < binade \<bar>x\<bar> + 1"
    by (rule pow2_less_imp)
  then have m: "max (binade \<bar>x\<bar>) (- 1022) = binade \<bar>x\<bar>" by simp
  have "pow2 (binade \<bar>x\<bar> - 52) / 2 = pow2 (binade \<bar>x\<bar>) / 2 ^ 53"
    by (simp add: pow2_eq power_int_diff)
  also have "\<dots> \<le> \<bar>x\<bar> / 2 ^ 53"
    using binade_bounds(1) [OF pos] by (simp add: divide_right_mono)
  finally show ?thesis
    using round_double_near [OF assms(1)] unfolding m by linarith
qed


lemma round_double_0_1: "round_double double_0_1 = Finite double_0_1"
  unfolding double_0_1_def by code_simp





lemma round_double_tie:
  "round_double (double_0_1 + double_0_2) = Finite (1351079888211149 / 4503599627370496)"
  unfolding double_0_1_def double_0_2_def by code_simp

lemma round_double_overflow: "round_double (double_1e308 + double_1e308) = PosInfinity"
  unfolding double_1e308_def by code_simp


subsection \<open>Averaging\<close>





text \<open>
  The sum of the values nearest to 0.1 and 0.2 is rounded up, and the sum of twice
  \<open>10 ^ 308\<close> overflows.
\<close>

lemma double_sum_rounds_up:
  "double_sum (Finite 0) [double_0_1, double_0_2] = Finite (1351079888211149 / 4503599627370496)"
  by (simp add: double_sum_def round_double_0_1 round_double_tie)

lemma double_sum_overflows:
  "js_plus (Finite double_1e308) (Finite double_1e308) = PosInfinity"
  using round_double_overflow by simp




end
